theory Spec2Isabelle
  imports Main "HOL-Library.Word" "HOL-Library.Multiset"
begin

section \<open>Values of the Go runtime and of the libraries the server calls\<close>

text \<open>
  The server (\<^verbatim>\<open>src/server/server.go\<close>) is a broadcast hub over WebSocket connections.
  Its own code is embedded below function by function. What it calls in the Go standard
  library and in \<^verbatim>\<open>github.com/coder/websocket\<close> is represented by the values these
  calls exchange with the server: errors, status codes, contexts, and a record of the
  calls made on each connection. Results that come from the network (whether the
  handshake succeeds, whether a write fails, which frame arrives, when a deadline fires)
  are inputs of the model. The waiting time of the rate limiters is not represented,
  and of the log lines only the errors that \<^verbatim>\<open>subscribeHandler\<close> hands to \<^verbatim>\<open>cs.logf\<close>.
\<close>

type_synonym bytes = "8 word list"

text \<open>A \<^verbatim>\<open>*subscriber\<close> and a \<^verbatim>\<open>*websocket.Conn\<close> are pointers: only their identity matters.\<close>

type_synonym addr = nat
type_synonym Conn = nat

text \<open>
  Go's \<^verbatim>\<open>error\<close> values met by the server; \<^verbatim>\<open>nil\<close> is \<open>None\<close> of \<open>error option\<close>.
  \<open>Wrapped\<close> is an error built with \<^verbatim>\<open>%w\<close>, which \<^verbatim>\<open>errors.As\<close> looks through.
\<close>

datatype error =
    CloseError int string
  | Wrapped string error
  | Canceled
  | DeadlineExceeded
  | ErrClosed
  | MaxBytesError
  | TransportError string

definition StatusNormalClosure :: int where "StatusNormalClosure = 1000"
definition StatusGoingAway :: int where "StatusGoingAway = 1001"
definition StatusPolicyViolation :: int where "StatusPolicyViolation = 1008"

text \<open>\<^verbatim>\<open>websocket.CloseStatus\<close>: the code of a close error, \<open>-1\<close> for \<^verbatim>\<open>nil\<close> and for any other error.\<close>

fun CloseStatus :: "error option \<Rightarrow> int" where
  "CloseStatus None = - 1"
| "CloseStatus (Some (CloseError code reason)) = code"
| "CloseStatus (Some (Wrapped txt e)) = CloseStatus (Some e)"
| "CloseStatus (Some e) = - 1"

text \<open>\<^verbatim>\<open>time.Duration\<close> counts nanoseconds.\<close>

definition Millisecond :: int where "Millisecond = 1000000"
definition Second :: int where "Second = 1000 * Millisecond"
definition Minute :: int where "Minute = 60 * Second"

datatype "context" = Background | WithTimeout "context" int

definition StatusAccepted :: nat where "StatusAccepted = 202"
definition StatusMethodNotAllowed :: nat where "StatusMethodNotAllowed = 405"
definition StatusRequestEntityTooLarge :: nat where "StatusRequestEntityTooLarge = 413"

text \<open>
  A request body is a stream: it either delivers all its bytes, or breaks with an error
  after some of them. \<^verbatim>\<open>http.MaxBytesReader\<close> turns a stream that would deliver more
  than \<open>n\<close> bytes into one that breaks after \<open>n\<close>; \<^verbatim>\<open>io.ReadAll\<close> returns the bytes of
  a complete stream and the error of a broken one.
\<close>

datatype body_stream = Complete bytes | Broken bytes error

fun MaxBytesReader :: "body_stream \<Rightarrow> nat \<Rightarrow> body_stream" where
  "MaxBytesReader (Complete bs) n =
     (if n < length bs then Broken (take n bs) MaxBytesError else Complete bs)"
| "MaxBytesReader (Broken bs e) n =
     (if n < length bs then Broken (take n bs) MaxBytesError else Broken bs e)"

fun ReadAll :: "body_stream \<Rightarrow> error + bytes" where
  "ReadAll (Complete bs) = Inr bs"
| "ReadAll (Broken bs e) = Inl e"

record request =
  Method :: string
  RemoteAddr :: string
  Body :: body_stream

text \<open>The calls the server makes on a connection, in the order it makes them.\<close>

datatype MessageType = MessageText | MessageBinary

datatype conn_call =
    Close int string
  | CloseNow
  | Write "context" MessageType bytes

datatype panic = NilPointerDereference

text \<open>A method called through a \<^verbatim>\<open>nil\<close> connection pointer panics.\<close>

definition Conn_Close ::
  "Conn option \<Rightarrow> int \<Rightarrow> string \<Rightarrow> (Conn \<times> conn_call) list \<Rightarrow> panic + (Conn \<times> conn_call) list" where
  "Conn_Close p code reason calls =
     (case p of
        None \<Rightarrow> Inl NilPointerDereference
      | Some k \<Rightarrow> Inr (calls @ [(k, Close code reason)]))"

section \<open>The data of the server\<close>

text \<open>
  \<^verbatim>\<open>games/hilo.go\<close>: the one game. Its \<^verbatim>\<open>HandleMsg\<close> only prints the user and the message;
  the printed pairs are kept in \<open>game_log\<close> below.
\<close>

record HiLo =
  magic_number :: int

definition NewHilo :: HiLo where
  "NewHilo = \<lparr>magic_number = 10\<rparr>"

text \<open>
  \<^verbatim>\<open>subscriber\<close>: \<open>msgs\<close> holds the content of the buffered channel, oldest first, and
  \<open>msgs_cap\<close> its capacity. The field \<^verbatim>\<open>closeSlow\<close> is a closure over the variables
  \<^verbatim>\<open>mu\<close>, \<^verbatim>\<open>c\<close> and \<^verbatim>\<open>closed\<close> of the call of \<^verbatim>\<open>subscribe\<close> that made the subscriber; a
  \<open>session\<close> is the subscriber together with these variables, the context of the call
  and the point the call has reached:
  \<^item> \<open>Accepting\<close>: registered, inside \<^verbatim>\<open>websocket.Accept\<close>;
  \<^item> \<open>Active\<close>: \<^verbatim>\<open>c\<close> assigned, in the \<^verbatim>\<open>for\<close>/\<^verbatim>\<open>select\<close> loop, \<^verbatim>\<open>listen\<close> started;
  \<^item> \<open>Returned err\<close>: \<^verbatim>\<open>subscribe\<close> has returned \<open>err\<close> and its deferred calls have run.
  Every \<^verbatim>\<open>return\<close> of \<^verbatim>\<open>subscribe\<close> carries a non-nil error.
\<close>

datatype phase = Accepting | Active | Returned error

datatype listen_state = NotStarted | Listening | Stopped "error option"

record subscriber =
  sub_id :: string
  msgs :: "bytes list"
  msgs_cap :: nat

record session = subscriber +
  c :: "Conn option"
  closed :: bool
  ctx :: "context option"
  phase :: phase
  listener :: listen_state

text \<open>
  \<^verbatim>\<open>gameServer\<close>: \<open>subscribers\<close> is the key set of \<^verbatim>\<open>map[*subscriber]struct{}\<close>, kept as a
  list without duplicates. The remaining fields are the memory around the server:
  \<open>sessions\<close> is the heap of sessions (a pointer is an index into it, and allocation
  appends), \<open>spawned\<close> the goroutines started by \<^verbatim>\<open>go s.closeSlow()\<close> that have not run yet,
  \<open>conn_calls\<close> the calls made on connections, \<open>game_log\<close> what the game printed, and
  \<open>crashed\<close> a panic, if one happened.
\<close>

record gameServer =
  subscriberMessageBuffer :: nat
  subscribers :: "addr list"
  game :: HiLo
  sessions :: "session list"
  spawned :: "addr multiset"
  conn_calls :: "(Conn \<times> conn_call) list"
  game_log :: "(string \<times> bytes) list"
  crashed :: "panic option"

text \<open>
  \<^verbatim>\<open>newGameServer\<close>. The routes it installs are the two handlers below and the static
  files; the limiter it makes has no state here.
\<close>

definition newGameServer :: gameServer where
  "newGameServer =
     \<lparr>subscriberMessageBuffer = 16, subscribers = [], game = NewHilo, sessions = [],
      spawned = {#}, conn_calls = [], game_log = [], crashed = None\<rparr>"

definition HandleMsg :: "string \<Rightarrow> bytes \<Rightarrow> gameServer \<Rightarrow> gameServer" where
  "HandleMsg usrid msg st = st\<lparr>game_log := game_log st @ [(usrid, msg)]\<rparr>"

section \<open>Registry and broadcast\<close>

text \<open>
  \<^verbatim>\<open>addSubscriber\<close>, \<^verbatim>\<open>deleteSubscriber\<close>: assignment to a map key that is present keeps
  one key; \<^verbatim>\<open>delete\<close> of an absent key does nothing.
\<close>

definition addSubscriber :: "addr \<Rightarrow> gameServer \<Rightarrow> gameServer" where
  "addSubscriber s st =
     st\<lparr>subscribers :=
          (if s \<in> set (subscribers st) then subscribers st else subscribers st @ [s])\<rparr>"

definition deleteSubscriber :: "addr \<Rightarrow> gameServer \<Rightarrow> gameServer" where
  "deleteSubscriber s st = st\<lparr>subscribers := removeAll s (subscribers st)\<rparr>"

text \<open>
  \<^verbatim>\<open>select { case s.msgs <- msg: ... default: ... }\<close> on a buffered channel: the send
  goes through when the buffer has room, otherwise the \<^verbatim>\<open>default\<close> branch is taken.
  (A channel without a buffer would also need a receiver that is waiting; the
  constructor sets the capacity to 16 and nothing changes it.)
\<close>

definition try_send :: "bytes \<Rightarrow> session \<Rightarrow> session option" where
  "try_send msg s =
     (if length (msgs s) < msgs_cap s then Some (s\<lparr>msgs := msgs s @ [msg]\<rparr>) else None)"

text \<open>The body of the \<^verbatim>\<open>range\<close> loop of \<^verbatim>\<open>publish\<close>, for the subscriber at \<open>s\<close>.\<close>

definition publish_step :: "bytes \<Rightarrow> addr \<Rightarrow> gameServer \<Rightarrow> gameServer" where
  "publish_step msg s st =
     (if s < length (sessions st) then
        (case try_send msg (sessions st ! s) of
           Some s' \<Rightarrow> st\<lparr>sessions := (sessions st)[s := s']\<rparr>
         | None \<Rightarrow> st\<lparr>spawned := add_mset s (spawned st)\<rparr>)
      else st)"

fun publish_range :: "bytes \<Rightarrow> addr list \<Rightarrow> gameServer \<Rightarrow> gameServer" where
  "publish_range msg [] st = st"
| "publish_range msg (s # rest) st = publish_range msg rest (publish_step msg s st)"

text \<open>
  \<^verbatim>\<open>publish\<close> holds \<^verbatim>\<open>subscribersMu\<close> from start to end, so no registration interleaves
  with the loop; the wait on \<^verbatim>\<open>publishLimiter\<close> only delays it, and its result is
  dropped. Go leaves the order of \<^verbatim>\<open>range\<close> over a map open; \<open>publish_range\<close> takes the
  order, and \<open>publish\<close> uses the stored one (lemma \<open>publish_range_any_order\<close> shows that
  the result is the same for every order). The whole loop is one step of the model. A
  write loop can take a message from its queue between two rounds of the loop; such a
  receive touches one queue only, so it falls before or after the round for that queue
  and gives the state of a run in which it comes before or after the whole loop
  (lemma \<open>publish_with_receive_between\<close>).
\<close>

definition publish :: "bytes \<Rightarrow> gameServer \<Rightarrow> gameServer" where
  "publish msg st = publish_range msg (subscribers st) st"

section \<open>The HTTP publish endpoint\<close>

definition publishHandler :: "request \<Rightarrow> gameServer \<Rightarrow> nat \<times> gameServer" where
  "publishHandler r st =
     (if Method r \<noteq> ''POST'' then (StatusMethodNotAllowed, st)
      else
        (case ReadAll (MaxBytesReader (Body r) 8192) of
           Inl err \<Rightarrow> (StatusRequestEntityTooLarge, st)
         | Inr msg \<Rightarrow> (StatusAccepted, publish msg (HandleMsg (RemoteAddr r) msg st))))"

section \<open>One subscription\<close>

text \<open>
  \<^verbatim>\<open>closeSlow\<close> works on the variables it captured and on the connection. The result of
  \<^verbatim>\<open>c.Close\<close> is dropped by the source.
\<close>

definition closeSlow ::
  "session \<Rightarrow> (Conn \<times> conn_call) list \<Rightarrow> panic + (session \<times> (Conn \<times> conn_call) list)" where
  "closeSlow ses calls =
     (let ses' = ses\<lparr>closed := True\<rparr> in
      if c ses' \<noteq> None then
        (case Conn_Close (c ses') StatusPolicyViolation
                ''connection too slow to keep up with messages'' calls of
           Inl p \<Rightarrow> Inl p
         | Inr calls' \<Rightarrow> Inr (ses', calls'))
      else Inr (ses', calls))"

text \<open>A goroutine started by \<^verbatim>\<open>go s.closeSlow()\<close> runs.\<close>

definition run_closeSlow :: "addr \<Rightarrow> gameServer \<Rightarrow> gameServer" where
  "run_closeSlow s st =
     (if s \<in># spawned st \<and> s < length (sessions st) then
        (case closeSlow (sessions st ! s) (conn_calls st) of
           Inl p \<Rightarrow> st\<lparr>spawned := spawned st - {#s#}, crashed := Some p\<rparr>
         | Inr (ses', calls') \<Rightarrow>
             st\<lparr>spawned := spawned st - {#s#}, sessions := (sessions st)[s := ses'],
                conn_calls := calls'\<rparr>)
      else st)"

text \<open>
  \<^verbatim>\<open>subscribe\<close>, lines 126 to 143: the subscriber is made and registered, and
  \<^verbatim>\<open>deleteSubscriber\<close> is deferred. The call then waits in \<^verbatim>\<open>websocket.Accept\<close>.
\<close>

definition subscribe_begin :: "string \<Rightarrow> gameServer \<Rightarrow> gameServer" where
  "subscribe_begin remote st =
     (let s = length (sessions st);
          ses = \<lparr>sub_id = remote, msgs = [], msgs_cap = subscriberMessageBuffer st,
                 c = None, closed = False, ctx = None, phase = Accepting,
                 listener = NotStarted\<rparr>
      in addSubscriber s (st\<lparr>sessions := sessions st @ [ses]\<rparr>))"

text \<open>
  A \<^verbatim>\<open>return err\<close> of \<^verbatim>\<open>subscribe\<close>. The deferred calls run last registered first:
  \<^verbatim>\<open>cancel()\<close> and \<^verbatim>\<open>c.CloseNow()\<close> if the call got as far as deferring them
  (\<open>k = Some conn\<close>), then \<^verbatim>\<open>cs.deleteSubscriber(s)\<close>.
\<close>

definition subscribe_return :: "addr \<Rightarrow> error \<Rightarrow> Conn option \<Rightarrow> gameServer \<Rightarrow> gameServer" where
  "subscribe_return s err k st =
     deleteSubscriber s
       (st\<lparr>sessions := (sessions st)[s := (sessions st ! s)\<lparr>phase := Returned err\<rparr>],
           conn_calls :=
             (case k of None \<Rightarrow> conn_calls st | Some k' \<Rightarrow> conn_calls st @ [(k', CloseNow)])\<rparr>)"

text \<open>
  Lines 145 to 162: \<^verbatim>\<open>websocket.Accept\<close> returns \<open>res\<close>. The test of \<^verbatim>\<open>closed\<close> and the
  assignment to \<^verbatim>\<open>c\<close> happen under \<^verbatim>\<open>mu\<close>, which \<^verbatim>\<open>closeSlow\<close> takes too.
\<close>

definition subscribe_accept :: "addr \<Rightarrow> error + Conn \<Rightarrow> gameServer \<Rightarrow> gameServer" where
  "subscribe_accept s res st =
     (if s < length (sessions st) \<and> phase (sessions st ! s) = Accepting then
        (case res of
           Inl err \<Rightarrow> subscribe_return s err None st
         | Inr c2 \<Rightarrow>
             if closed (sessions st ! s) then subscribe_return s ErrClosed None st
             else st\<lparr>sessions := (sessions st)[s := (sessions st ! s)
                       \<lparr>c := Some c2, ctx := Some (WithTimeout Background (Minute * 60)),
                        phase := Active, listener := Listening\<rparr>]\<rparr>)
      else st)"

text \<open>
  \<^verbatim>\<open>writeTimeout\<close>: the write is made under a context derived from the caller's with
  the timeout; \<open>outcome\<close> is what \<^verbatim>\<open>c.Write\<close> returns.
\<close>

definition writeTimeout ::
  "context \<Rightarrow> int \<Rightarrow> Conn \<Rightarrow> bytes \<Rightarrow> error option \<Rightarrow> (Conn \<times> conn_call) list
     \<Rightarrow> error option \<times> (Conn \<times> conn_call) list" where
  "writeTimeout cx timeout k msg outcome calls =
     (outcome, calls @ [(k, Write (WithTimeout cx timeout) MessageText msg)])"

text \<open>
  Lines 164 to 175, one round of the loop. The \<^verbatim>\<open>select\<close> takes the receive (possible
  when the channel holds a message; the result of the write is part of the input) or
  \<^verbatim>\<open>ctx.Done()\<close>. Nothing calls \<^verbatim>\<open>cancel\<close> before \<^verbatim>\<open>subscribe\<close> returns, so a context
  that is done has passed its deadline and \<^verbatim>\<open>ctx.Err()\<close> is \<^verbatim>\<open>context.DeadlineExceeded\<close>.
\<close>

datatype select_case = RecvMsg "error option" | CtxDone

definition subscribe_select :: "addr \<Rightarrow> select_case \<Rightarrow> gameServer \<Rightarrow> gameServer" where
  "subscribe_select s sel st =
     (if s < length (sessions st) \<and> phase (sessions st ! s) = Active then
        (case (c (sessions st ! s), ctx (sessions st ! s)) of
           (Some k, Some cx) \<Rightarrow>
             (case sel of
                RecvMsg outcome \<Rightarrow>
                  (case msgs (sessions st ! s) of
                     [] \<Rightarrow> st
                   | msg # rest \<Rightarrow>
                       (case writeTimeout cx (Second * 5) k msg outcome (conn_calls st) of
                          (err, calls') \<Rightarrow>
                            (let st' = st\<lparr>sessions := (sessions st)[s := (sessions st ! s)\<lparr>msgs := rest\<rparr>],
                                          conn_calls := calls'\<rparr>
                             in case err of
                                  Some e \<Rightarrow> subscribe_return s e (Some k) st'
                                | None \<Rightarrow> st')))
              | CtxDone \<Rightarrow> subscribe_return s DeadlineExceeded (Some k) st)
         | _ \<Rightarrow> st)
      else st)"

text \<open>
  \<^verbatim>\<open>echo\<close>: the input says where the call ends: the limiter's \<^verbatim>\<open>Wait\<close> fails, \<^verbatim>\<open>c.Reader\<close>
  fails, reading the frame fails, or a frame is read, handed to the game and published.
  (When reading the frame fails the source also calls \<^verbatim>\<open>http.Error\<close> on the response
  writer of the upgraded request; that call changes nothing of the server.)
\<close>

datatype echo_input =
    WaitFails error
  | ReaderFails error
  | ReadAllFails error
  | Frame bytes

fun echo :: "string \<Rightarrow> echo_input \<Rightarrow> gameServer \<Rightarrow> error option \<times> gameServer" where
  "echo remote (WaitFails err) st = (Some err, st)"
| "echo remote (ReaderFails err) st = (Some err, st)"
| "echo remote (ReadAllFails err) st = (Some err, st)"
| "echo remote (Frame msg) st = (None, publish msg (HandleMsg remote msg st))"

text \<open>
  \<^verbatim>\<open>listen\<close>: one round of its loop either returns or goes on; the loop over a list of
  inputs is still running when the inputs are used up.
\<close>

datatype listen_result = Running | ListenReturned "error option"

definition listen_round :: "string \<Rightarrow> echo_input \<Rightarrow> gameServer \<Rightarrow> listen_result \<times> gameServer" where
  "listen_round remote inp st =
     (case echo remote inp st of
        (err, st') \<Rightarrow>
          if CloseStatus err = StatusNormalClosure then (ListenReturned None, st')
          else if err \<noteq> None then (ListenReturned err, st')
          else (Running, st'))"

fun listen :: "string \<Rightarrow> echo_input list \<Rightarrow> gameServer \<Rightarrow> listen_result \<times> gameServer" where
  "listen remote [] st = (Running, st)"
| "listen remote (inp # inps) st =
     (case listen_round remote inp st of
        (Running, st') \<Rightarrow> listen remote inps st'
      | (ListenReturned r, st') \<Rightarrow> (ListenReturned r, st'))"

text \<open>
  The goroutine \<^verbatim>\<open>go cs.listen(ctx, w, r, c, l)\<close> of the session at \<open>s\<close> makes one round.
  What \<^verbatim>\<open>listen\<close> returns goes nowhere: a goroutine's result is dropped.
\<close>

definition listen_step :: "addr \<Rightarrow> echo_input \<Rightarrow> gameServer \<Rightarrow> gameServer" where
  "listen_step s inp st =
     (if s < length (sessions st) \<and> listener (sessions st ! s) = Listening then
        (case listen_round (sub_id (sessions st ! s)) inp st of
           (Running, st') \<Rightarrow> st'
         | (ListenReturned r, st') \<Rightarrow>
             st'\<lparr>sessions := (sessions st')[s := (sessions st' ! s)\<lparr>listener := Stopped r\<rparr>]\<rparr>)
      else st)"

text \<open>
  \<^verbatim>\<open>errors.Is\<close>: the error is the target, or wraps an error that is.
\<close>

fun errors_Is :: "error option \<Rightarrow> error \<Rightarrow> bool" where
  "errors_Is None target = False"
| "errors_Is (Some (Wrapped txt e)) target =
     (Wrapped txt e = target \<or> errors_Is (Some e) target)"
| "errors_Is (Some e) target = (e = target)"

text \<open>
  \<^verbatim>\<open>subscribeHandler\<close>, after \<^verbatim>\<open>cs.subscribe\<close> has returned \<open>err\<close>: the result is the list
  of errors it hands to \<^verbatim>\<open>cs.logf\<close> (none or one).
\<close>

definition subscribeHandler :: "error option \<Rightarrow> error list" where
  "subscribeHandler err =
     (if errors_Is err Canceled then []
      else if CloseStatus err = StatusNormalClosure \<or> CloseStatus err = StatusGoingAway then []
      else (case err of Some e \<Rightarrow> [e] | None \<Rightarrow> []))"

section \<open>The server as a transition system\<close>

text \<open>
  Each event is one step of one goroutine between two synchronisation points:
  \<^item> \<open>Subscribe remote\<close>: a request to \<^verbatim>\<open>/subscribe\<close> enters \<^verbatim>\<open>subscribe\<close> and registers;
  \<^item> \<open>AcceptReturns s res\<close>: \<^verbatim>\<open>websocket.Accept\<close> returns \<open>res\<close> to session \<open>s\<close>;
  \<^item> \<open>Select s sel\<close>: one round of the write loop of session \<open>s\<close>;
  \<^item> \<open>Read s inp\<close>: one round of the read loop of session \<open>s\<close>;
  \<^item> \<open>HttpPublish r\<close>: a request to \<^verbatim>\<open>/publish\<close> is served;
  \<^item> \<open>RunCloseSlow s\<close>: a goroutine started by \<^verbatim>\<open>go s.closeSlow()\<close> runs.
  An event that cannot happen in a state (a session that is not at that point, a
  goroutine that was not started) leaves the state as it is; after a panic nothing
  runs. The states the server can reach are \<open>run evs newGameServer\<close>, for every list of
  events \<open>evs\<close>.
\<close>

datatype event =
    Subscribe string
  | AcceptReturns addr "error + Conn"
  | Select addr select_case
  | Read addr echo_input
  | HttpPublish request
  | RunCloseSlow addr

fun fire :: "event \<Rightarrow> gameServer \<Rightarrow> gameServer" where
  "fire (Subscribe remote) st = subscribe_begin remote st"
| "fire (AcceptReturns s res) st = subscribe_accept s res st"
| "fire (Select s sel) st = subscribe_select s sel st"
| "fire (Read s inp) st = listen_step s inp st"
| "fire (HttpPublish r) st = snd (publishHandler r st)"
| "fire (RunCloseSlow s) st = run_closeSlow s st"

definition step :: "event \<Rightarrow> gameServer \<Rightarrow> gameServer" where
  "step ev st = (if crashed st \<noteq> None then st else fire ev st)"

fun run :: "event list \<Rightarrow> gameServer \<Rightarrow> gameServer" where
  "run [] st = st"
| "run (ev # evs) st = run evs (step ev st)"

text \<open>
  What holds of every state the server can reach: the registry has no duplicate and
  holds exactly the sessions that have not returned; every channel has the capacity the
  constructor set; a session has its connection and its context exactly when it is
  active; pointers point into the heap; nothing has panicked.
\<close>

definition session_ok :: "gameServer \<Rightarrow> addr \<Rightarrow> bool" where
  "session_ok st s \<longleftrightarrow>
     msgs_cap (sessions st ! s) = 16 \<and>
     (s \<in> set (subscribers st) \<longleftrightarrow>
        phase (sessions st ! s) = Accepting \<or> phase (sessions st ! s) = Active) \<and>
     (phase (sessions st ! s) = Accepting \<longrightarrow>
        c (sessions st ! s) = None \<and> ctx (sessions st ! s) = None \<and>
        listener (sessions st ! s) = NotStarted) \<and>
     (phase (sessions st ! s) = Active \<longrightarrow>
        c (sessions st ! s) \<noteq> None \<and>
        ctx (sessions st ! s) = Some (WithTimeout Background (Minute * 60)))"

definition invar :: "gameServer \<Rightarrow> bool" where
  "invar st \<longleftrightarrow>
     subscriberMessageBuffer st = 16 \<and>
     crashed st = None \<and>
     distinct (subscribers st) \<and>
     (\<forall>s \<in> set (subscribers st). s < length (sessions st)) \<and>
     (\<forall>s \<in># spawned st. s < length (sessions st)) \<and>
     (\<forall>s < length (sessions st). session_ok st s)"

text \<open>
  How one session can differ between an earlier and a later state: a closed flag
  stays set, a session that has left \<open>Accepting\<close> does not come back to it, and a
  session that has returned stays as it returned.
\<close>

definition evolves :: "session \<Rightarrow> session \<Rightarrow> bool" where
  "evolves a b \<longleftrightarrow>
     (closed a \<longrightarrow> closed b) \<and>
     (phase a \<noteq> Accepting \<longrightarrow> phase b \<noteq> Accepting) \<and>
     (\<forall>e. phase a = Returned e \<longrightarrow> phase b = Returned e)"

definition later :: "gameServer \<Rightarrow> gameServer \<Rightarrow> bool" where
  "later st st' \<longleftrightarrow>
     length (sessions st) \<le> length (sessions st') \<and>
     (\<forall>s < length (sessions st).
        evolves (sessions st ! s) (sessions st' ! s) \<and>
        (s \<notin> set (subscribers st) \<longrightarrow> s \<notin> set (subscribers st')))"

text \<open>
  A run used as an example below. Two clients subscribe; the handshake of the first
  one completes, the second one is still inside \<^verbatim>\<open>websocket.Accept\<close>. Sixteen messages
  are posted to \<^verbatim>\<open>/publish\<close> and the first client's write loop sends one of them. At
  the end the first queue holds fifteen messages and the second is full.
\<close>

definition post :: event where
  "post = HttpPublish \<lparr>Method = ''POST'', RemoteAddr = ''10.0.0.9:6000'', Body = Complete [104, 105]\<rparr>"

definition busy_run :: "event list" where
  "busy_run =
     [Subscribe ''10.0.0.1:5001'', AcceptReturns 0 (Inr 7), Subscribe ''10.0.0.2:5002'']
     @ replicate 16 post @ [Select 0 (RecvMsg None)]"

definition busy_state :: gameServer where
  "busy_state =
     \<lparr>subscriberMessageBuffer = 16, subscribers = [0, 1], game = \<lparr>magic_number = 10\<rparr>,
      sessions =
        [\<lparr>sub_id = ''10.0.0.1:5001'', msgs = replicate 15 [104, 105], msgs_cap = 16,
          c = Some 7, closed = False,
          ctx = Some (WithTimeout Background 3600000000000), phase = Active,
          listener = Listening\<rparr>,
         \<lparr>sub_id = ''10.0.0.2:5002'', msgs = replicate 16 [104, 105], msgs_cap = 16,
          c = None, closed = False, ctx = None, phase = Accepting,
          listener = NotStarted\<rparr>],
      spawned = {#},
      conn_calls =
        [(7, Write (WithTimeout (WithTimeout Background 3600000000000) 5000000000)
               MessageText [104, 105])],
      game_log = replicate 16 (''10.0.0.9:6000'', [104, 105]),
      crashed = None\<rparr>"

section \<open>Properties of the broadcast loop\<close>

text \<open>The order in which the loop visits the subscribers does not matter.\<close>

lemma nth_upd: "xs[i := x] ! j = (if i = j \<and> i < length xs then x else xs ! j)"
  by (cases "i < length xs") (simp_all add: nth_list_update list_update_beyond not_less)

lemma run_append: "run (evs @ evs') st = run evs' (run evs st)"
  by (induction evs arbitrary: st) simp_all

lemma publish_step_commute:
  "publish_step m x (publish_step m y st) = publish_step m y (publish_step m x st)"
  by (cases "x = y")
     (auto simp: publish_step_def try_send_def list_update_swap split: option.splits if_splits)

lemma publish_range_fold: "publish_range m xs st = fold (publish_step m) xs st"
  by (induction xs arbitrary: st) auto

lemma publish_range_any_order:
  "mset xs = mset ys \<Longrightarrow> publish_range m xs st = publish_range m ys st"
  unfolding publish_range_fold
  by (rule arg_cong[where f="\<lambda>f. f st"], rule fold_multiset_equiv)
     (auto simp: fun_eq_iff publish_step_commute)

text \<open>What publish leaves alone.\<close>

lemma publish_step_frame:
  "length (sessions (publish_step m x st)) = length (sessions st)"
  "subscribers (publish_step m x st) = subscribers st"
  "subscriberMessageBuffer (publish_step m x st) = subscriberMessageBuffer st"
  "conn_calls (publish_step m x st) = conn_calls st"
  "game_log (publish_step m x st) = game_log st"
  "game (publish_step m x st) = game st"
  "crashed (publish_step m x st) = crashed st"
  by (simp_all add: publish_step_def split: option.splits)

lemma publish_step_session:
  "sub_id (sessions (publish_step m x st) ! s) = sub_id (sessions st ! s)"
  "msgs_cap (sessions (publish_step m x st) ! s) = msgs_cap (sessions st ! s)"
  "c (sessions (publish_step m x st) ! s) = c (sessions st ! s)"
  "closed (sessions (publish_step m x st) ! s) = closed (sessions st ! s)"
  "ctx (sessions (publish_step m x st) ! s) = ctx (sessions st ! s)"
  "phase (sessions (publish_step m x st) ! s) = phase (sessions st ! s)"
  "listener (sessions (publish_step m x st) ! s) = listener (sessions st ! s)"
  by (auto simp: publish_step_def try_send_def nth_list_update split: option.splits)

lemma publish_step_spawned:
  "set_mset (spawned (publish_step m x st)) \<subseteq> set_mset (spawned st) \<union> {s. s < length (sessions st)}"
  by (auto simp: publish_step_def split: option.splits)

lemma publish_range_frame:
  "length (sessions (publish_range m xs st)) = length (sessions st)"
  "subscribers (publish_range m xs st) = subscribers st"
  "subscriberMessageBuffer (publish_range m xs st) = subscriberMessageBuffer st"
  "conn_calls (publish_range m xs st) = conn_calls st"
  "game_log (publish_range m xs st) = game_log st"
  "game (publish_range m xs st) = game st"
  "crashed (publish_range m xs st) = crashed st"
  by (induction xs arbitrary: st; simp add: publish_step_frame)+

lemma publish_range_session:
  "sub_id (sessions (publish_range m xs st) ! s) = sub_id (sessions st ! s)"
  "msgs_cap (sessions (publish_range m xs st) ! s) = msgs_cap (sessions st ! s)"
  "c (sessions (publish_range m xs st) ! s) = c (sessions st ! s)"
  "closed (sessions (publish_range m xs st) ! s) = closed (sessions st ! s)"
  "ctx (sessions (publish_range m xs st) ! s) = ctx (sessions st ! s)"
  "phase (sessions (publish_range m xs st) ! s) = phase (sessions st ! s)"
  "listener (sessions (publish_range m xs st) ! s) = listener (sessions st ! s)"
  by (induction xs arbitrary: st; simp add: publish_step_session)+

lemma publish_range_spawned:
  "set_mset (spawned (publish_range m xs st)) \<subseteq> set_mset (spawned st) \<union> {s. s < length (sessions st)}"
proof (induction xs arbitrary: st)
  case Nil
  then show ?case by simp
next
  case (Cons x xs)
  show ?case
    using Cons.IH[of "publish_step m x st"] publish_step_spawned[of m x st]
    by (auto simp: publish_step_frame)
qed

text \<open>What publish does to one subscriber.\<close>

lemma publish_step_other:
  "x \<noteq> s \<Longrightarrow> msgs (sessions (publish_step m x st) ! s) = msgs (sessions st ! s)
     \<and> count (spawned (publish_step m x st)) s = count (spawned st) s"
  by (auto simp: publish_step_def split: option.splits)

lemma publish_range_other:
  "s \<notin> set xs \<Longrightarrow> msgs (sessions (publish_range m xs st) ! s) = msgs (sessions st ! s)
     \<and> count (spawned (publish_range m xs st)) s = count (spawned st) s"
  by (induction xs arbitrary: st) (auto simp: publish_step_other)

lemma publish_step_self:
  "s < length (sessions st) \<Longrightarrow>
     (if length (msgs (sessions st ! s)) < msgs_cap (sessions st ! s)
      then msgs (sessions (publish_step m s st) ! s) = msgs (sessions st ! s) @ [m]
           \<and> count (spawned (publish_step m s st)) s = count (spawned st) s
      else msgs (sessions (publish_step m s st) ! s) = msgs (sessions st ! s)
           \<and> count (spawned (publish_step m s st)) s = Suc (count (spawned st) s))"
  by (auto simp: publish_step_def try_send_def split: option.splits)

lemma publish_range_self:
  "distinct xs \<Longrightarrow> s \<in> set xs \<Longrightarrow> s < length (sessions st) \<Longrightarrow>
     (if length (msgs (sessions st ! s)) < msgs_cap (sessions st ! s)
      then msgs (sessions (publish_range m xs st) ! s) = msgs (sessions st ! s) @ [m]
           \<and> count (spawned (publish_range m xs st)) s = count (spawned st) s
      else msgs (sessions (publish_range m xs st) ! s) = msgs (sessions st ! s)
           \<and> count (spawned (publish_range m xs st)) s = Suc (count (spawned st) s))"
proof (induction xs arbitrary: st)
  case Nil
  then show ?case by simp
next
  case (Cons x xs)
  show ?case
  proof (cases "x = s")
    case True
    with Cons.prems have "s \<notin> set xs" by simp
    from publish_range_other[OF this, of m "publish_step m s st"]
         publish_step_self[OF Cons.prems(3), of m] True
    show ?thesis by (simp split: if_splits)
  next
    case False
    with Cons.prems have "distinct xs" "s \<in> set xs"
      "s < length (sessions (publish_step m x st))"
      by (simp_all add: publish_step_frame)
    from Cons.IH[OF this] publish_step_other[OF False, of m st] publish_step_session(2)[of m x st s]
    show ?thesis by simp
  qed
qed

text \<open>
  A write loop that takes a message from the queue of \<open>s\<close> in the middle of the loop
  (after the subscribers \<open>xs\<close> were visited, before \<open>ys\<close> are) gives the state of a run
  in which it does so before the whole loop, if \<open>s\<close> was not visited yet, or after the
  whole loop, if \<open>s\<close> is not visited any more.
\<close>

lemma publish_step_receive_commute:
  "a \<noteq> s \<Longrightarrow>
     publish_step m a (subscribe_select s (RecvMsg None) st)
       = subscribe_select s (RecvMsg None) (publish_step m a st)"
  by (auto simp: publish_step_def try_send_def subscribe_select_def writeTimeout_def nth_upd
        list_update_swap split: option.splits list.splits)

lemma publish_range_receive_commute:
  "s \<notin> set xs \<Longrightarrow>
     publish_range m xs (subscribe_select s (RecvMsg None) st)
       = subscribe_select s (RecvMsg None) (publish_range m xs st)"
  by (induction xs arbitrary: st) (auto simp: publish_step_receive_commute)

lemma publish_range_append:
  "publish_range m (xs @ ys) st = publish_range m ys (publish_range m xs st)"
  by (induction xs arbitrary: st) simp_all

lemma publish_with_receive_between:
  "s \<notin> set xs \<Longrightarrow>
     publish_range m ys (subscribe_select s (RecvMsg None) (publish_range m xs st))
       = publish_range m (xs @ ys) (subscribe_select s (RecvMsg None) st)"
  "s \<notin> set ys \<Longrightarrow>
     publish_range m ys (subscribe_select s (RecvMsg None) (publish_range m xs st))
       = subscribe_select s (RecvMsg None) (publish_range m (xs @ ys) st)"
  by (simp_all add: publish_range_append publish_range_receive_commute)

section \<open>The invariant holds in every reachable state\<close>

lemma invar_init: "invar newGameServer"
  by (simp add: invar_def newGameServer_def)

lemma session_ok_publish_range:
  "session_ok (publish_range m xs st) s = session_ok st s"
  by (simp add: session_ok_def publish_range_frame publish_range_session)

lemma invar_publish_range: "invar st \<Longrightarrow> invar (publish_range m xs st)"
  using publish_range_spawned[of m xs st]
  by (auto simp: invar_def publish_range_frame session_ok_publish_range)

lemma invar_publish: "invar st \<Longrightarrow> invar (publish m st)"
  by (simp add: publish_def invar_publish_range)

lemma invar_HandleMsg: "invar st \<Longrightarrow> invar (HandleMsg u m st)"
  by (simp add: invar_def HandleMsg_def session_ok_def)

lemma invar_publishHandler: "invar st \<Longrightarrow> invar (snd (publishHandler r st))"
  by (simp add: publishHandler_def invar_publish invar_HandleMsg split: sum.splits)

lemma invar_subscribe_begin: "invar st \<Longrightarrow> invar (subscribe_begin remote st)"
  by (auto simp: invar_def subscribe_begin_def addSubscriber_def Let_def session_ok_def
        nth_append less_Suc_eq)

lemma invar_subscribe_return:
  "invar st \<Longrightarrow> s < length (sessions st) \<Longrightarrow> invar (subscribe_return s err k st)"
  by (auto simp: invar_def subscribe_return_def deleteSubscriber_def session_ok_def
        nth_list_update distinct_removeAll split: option.splits)

lemma invar_subscribe_accept: "invar st \<Longrightarrow> invar (subscribe_accept s res st)"
  unfolding subscribe_accept_def
  by (auto simp: invar_subscribe_return split: sum.splits)
     (auto simp: invar_def session_ok_def nth_list_update)

lemma invar_session_update:
  assumes "invar st"
    and "msgs_cap ses = msgs_cap (sessions st ! s)" "phase ses = phase (sessions st ! s)"
    and "c ses = c (sessions st ! s)" "ctx ses = ctx (sessions st ! s)"
    and "listener ses = listener (sessions st ! s) \<or> phase ses \<noteq> Accepting"
  shows "invar (st\<lparr>sessions := (sessions st)[s := ses]\<rparr>)"
proof (cases "s < length (sessions st)")
  case True
  with assms show ?thesis
    by (auto simp: invar_def session_ok_def nth_list_update)
next
  case False
  then have "(sessions st)[s := ses] = sessions st" by (simp add: list_update_beyond not_less)
  with assms(1) show ?thesis by (simp add: invar_def session_ok_def)
qed

lemma invar_conn_calls: "invar st \<Longrightarrow> invar (st\<lparr>conn_calls := calls\<rparr>)"
  by (simp add: invar_def session_ok_def)

lemma invar_subscribe_select: "invar st \<Longrightarrow> invar (subscribe_select s sel st)"
proof -
  assume w: "invar st"
  have upd: "invar (st\<lparr>sessions := (sessions st)[s := (sessions st ! s)\<lparr>msgs := rest\<rparr>],
                    conn_calls := calls\<rparr>)" for rest calls
    using invar_conn_calls[OF invar_session_update[OF w, of "(sessions st ! s)\<lparr>msgs := rest\<rparr>" s], of calls]
    by simp
  show ?thesis
    unfolding subscribe_select_def writeTimeout_def
    using w upd
    by (auto simp: invar_subscribe_return Let_def
          split: option.splits select_case.splits list.splits prod.splits)
qed

lemma invar_listen_step: "invar st \<Longrightarrow> invar (listen_step s inp st)"
proof -
  assume w: "invar st"
  have stop: "invar (st'\<lparr>sessions := (sessions st')[s := (sessions st' ! s)\<lparr>listener := Stopped r\<rparr>]\<rparr>)"
    if "invar st'" "phase (sessions st' ! s) \<noteq> Accepting" for st' r
    using invar_session_update[OF that(1), of "(sessions st' ! s)\<lparr>listener := Stopped r\<rparr>" s] that(2)
    by simp
  have echo_inv: "invar (snd (echo remote inp st))" for remote
    using w by (cases inp) (simp_all add: invar_publish invar_HandleMsg)
  have echo_phase: "phase (sessions (snd (echo remote inp st)) ! s) = phase (sessions st ! s)" for remote
    by (cases inp) (simp_all add: publish_def publish_range_session HandleMsg_def)
  have acc: "phase (sessions st ! s) \<noteq> Accepting"
    if "s < length (sessions st)" "listener (sessions st ! s) = Listening"
    using w that by (auto simp: invar_def session_ok_def)
  show ?thesis
    unfolding listen_step_def listen_round_def
    using w echo_inv[of "sub_id (sessions st ! s)"] echo_phase[of "sub_id (sessions st ! s)"]
    by (auto simp: stop acc split: prod.splits listen_result.splits if_splits)
qed

lemma invar_run_closeSlow: "invar st \<Longrightarrow> invar (run_closeSlow s st)"
proof -
  assume w: "invar st"
  have sub: "set_mset (spawned st - {#s#}) \<subseteq> set_mset (spawned st)"
    by (meson in_diffD subsetI)
  show ?thesis
    unfolding run_closeSlow_def closeSlow_def Conn_Close_def
    using w sub
    by (auto simp: invar_def session_ok_def nth_list_update Let_def
          split: sum.splits option.splits prod.splits dest: in_diffD)
qed

lemma invar_step: "invar st \<Longrightarrow> invar (step ev st)"
  by (cases ev)
     (simp_all add: step_def invar_subscribe_begin invar_subscribe_accept invar_subscribe_select
        invar_listen_step invar_publishHandler invar_run_closeSlow)

lemma invar_run: "invar st \<Longrightarrow> invar (run evs st)"
  by (induction evs arbitrary: st) (simp_all add: invar_step)

lemma invar_reachable: "invar (run evs newGameServer)"
  by (simp add: invar_run invar_init)

section \<open>Sessions only move forward\<close>

lemma later_refl: "later st st"
  by (simp add: later_def evolves_def)

lemma evolves_trans: "evolves a b \<Longrightarrow> evolves b d \<Longrightarrow> evolves a d"
  by (simp add: evolves_def)

lemma later_trans:
  assumes "later a b" "later b d"
  shows "later a d"
  unfolding later_def
proof (intro conjI allI impI)
  show "length (sessions a) \<le> length (sessions d)"
    using assms by (simp add: later_def)
next
  fix s assume s: "s < length (sessions a)"
  then have s': "s < length (sessions b)"
    using assms(1) by (simp add: later_def)
  show "evolves (sessions a ! s) (sessions d ! s)"
    using assms s s' by (auto simp: later_def intro: evolves_trans)
  assume "s \<notin> set (subscribers a)"
  then show "s \<notin> set (subscribers d)"
    using assms s s' by (auto simp: later_def)
qed

lemma later_publish_range: "later st (publish_range m xs st)"
  by (simp add: later_def evolves_def publish_range_frame publish_range_session)

lemma later_HandleMsg: "later st (HandleMsg u m st)"
  by (simp add: later_def evolves_def HandleMsg_def)

lemma later_publish_after_HandleMsg: "later st (publish m (HandleMsg u m st))"
  using later_trans[OF later_HandleMsg later_publish_range] by (simp add: publish_def)

lemma later_publishHandler: "later st (snd (publishHandler r st))"
  by (simp add: publishHandler_def later_refl later_publish_after_HandleMsg split: sum.splits)

lemma later_subscribe_begin: "later st (subscribe_begin remote st)"
  by (auto simp: later_def evolves_def subscribe_begin_def addSubscriber_def Let_def nth_append)

lemma later_subscribe_return:
  "phase (sessions st ! s) = Accepting \<or> phase (sessions st ! s) = Active \<Longrightarrow>
     later st (subscribe_return s err k st)"
  by (auto simp: later_def evolves_def subscribe_return_def deleteSubscriber_def nth_upd
        split: option.splits)

lemma later_session_update:
  assumes "evolves (sessions st ! s) ses"
  shows "later st (st\<lparr>sessions := (sessions st)[s := ses]\<rparr>)"
  using assms by (auto simp: later_def evolves_def nth_upd)

lemma later_conn_calls: "later st (st\<lparr>conn_calls := calls\<rparr>)"
  by (simp add: later_def evolves_def)

lemma later_subscribe_accept: "later st (subscribe_accept s res st)"
  unfolding subscribe_accept_def
  by (auto simp: later_refl later_subscribe_return later_session_update evolves_def
        split: sum.splits)

lemma later_subscribe_select: "later st (subscribe_select s sel st)"
proof -
  have upd: "later st (st\<lparr>sessions := (sessions st)[s := (sessions st ! s)\<lparr>msgs := rest\<rparr>],
                          conn_calls := calls\<rparr>)" (is "later st ?st'") for rest calls
    by (auto simp: later_def evolves_def nth_upd)
  have ret: "later st (subscribe_return s e k
               (st\<lparr>sessions := (sessions st)[s := (sessions st ! s)\<lparr>msgs := rest\<rparr>],
                   conn_calls := calls\<rparr>))"
    if "phase (sessions st ! s) = Active" "s < length (sessions st)" for rest calls e k
    by (rule later_trans[OF upd later_subscribe_return]) (use that in simp)
  show ?thesis
    unfolding subscribe_select_def writeTimeout_def
    by (auto simp: later_refl later_subscribe_return upd ret Let_def
          split: option.splits select_case.splits list.splits prod.splits)
qed

lemma later_echo: "later st (snd (echo remote inp st))"
  by (cases inp) (simp_all add: later_refl later_publish_after_HandleMsg)

lemma later_listen_step: "later st (listen_step s inp st)"
proof -
  have stop: "later st' (st'\<lparr>sessions := (sessions st')[s := (sessions st' ! s)\<lparr>listener := Stopped r\<rparr>]\<rparr>)"
    for st' r
    by (rule later_session_update) (simp add: evolves_def)
  show ?thesis
    unfolding listen_step_def listen_round_def
    using later_echo[of st "sub_id (sessions st ! s)" inp]
    by (auto simp: later_refl split: prod.splits listen_result.splits if_splits
          intro: later_trans[OF _ stop])
qed

lemma later_run_closeSlow: "later st (run_closeSlow s st)"
  unfolding run_closeSlow_def closeSlow_def Conn_Close_def
  by (auto simp: later_def evolves_def nth_upd Let_def
        split: sum.splits option.splits prod.splits)

lemma later_step: "later st (step ev st)"
  by (cases ev)
     (simp_all add: step_def later_refl later_subscribe_begin later_subscribe_accept
        later_subscribe_select later_listen_step later_publishHandler later_run_closeSlow)

lemma later_run: "later st (run evs st)"
proof (induction evs arbitrary: st)
  case Nil
  show ?case by (simp add: later_refl)
next
  case (Cons ev evs)
  show ?case
    using later_trans[OF later_step[of st ev] Cons.IH[of "step ev st"]] by simp
qed

section \<open>Evaluation of the example run\<close>

lemmas ev_defs = step_def subscribe_begin_def addSubscriber_def
  deleteSubscriber_def subscribe_accept_def subscribe_return_def subscribe_select_def
  writeTimeout_def listen_step_def listen_round_def run_closeSlow_def closeSlow_def
  Conn_Close_def publishHandler_def publish_def publish_step_def try_send_def HandleMsg_def
  StatusAccepted_def StatusMethodNotAllowed_def StatusRequestEntityTooLarge_def
  StatusPolicyViolation_def StatusNormalClosure_def StatusGoingAway_def NewHilo_def
  Millisecond_def Second_def Minute_def Let_def post_def

lemma busy_run_state: "run busy_run newGameServer = busy_state"
  by (simp add: busy_run_def busy_state_def newGameServer_def ev_defs numeral_nat)

section \<open>A session that was closed before its handshake\<close>

lemma accept_when_closed:
  assumes "invar st" "s < length (sessions st)" "phase (sessions st ! s) = Accepting"
    "closed (sessions st ! s)"
  shows "phase (sessions (step (AcceptReturns s (Inr k)) st) ! s) = Returned ErrClosed"
    and "s \<notin> set (subscribers (step (AcceptReturns s (Inr k)) st))"
    and "c (sessions (step (AcceptReturns s (Inr k)) st) ! s) = None"
    and "s < length (sessions (step (AcceptReturns s (Inr k)) st))"
  using assms
  by (simp_all add: invar_def session_ok_def step_def subscribe_accept_def subscribe_return_def
        deleteSubscriber_def)

lemma never_active_before:
  assumes "phase (sessions (run evs st) ! s) = Accepting"
    and "s < length (sessions (run (take n evs) st))"
  shows "phase (sessions (run (take n evs) st) ! s) = Accepting"
proof -
  have "run evs st = run (drop n evs) (run (take n evs) st)"
    by (simp add: run_append[symmetric])
  with later_run[of "run (take n evs) st" "drop n evs"] assms
  show ?thesis by (auto simp: later_def evolves_def)
qed

lemma returned_stays:
  assumes "s < length (sessions st)" "phase (sessions st ! s) = Returned e"
    "s \<notin> set (subscribers st)"
  shows "phase (sessions (run evs st) ! s) = Returned e \<and> s \<notin> set (subscribers (run evs st))"
  using later_run[of st evs] assms by (simp add: later_def evolves_def)

section \<open>The claims\<close>

text \<open>
  Claim C1. Take any state \<open>st\<close> the server can reach and any message \<open>m\<close>. Whatever
  order the \<^verbatim>\<open>range\<close> loop of \<^verbatim>\<open>publish\<close> visits the registered subscribers in, the
  result is that of \<open>publish\<close>, and for every subscriber \<open>s\<close> registered at that time: if
  its queue holds fewer than 16 messages, \<open>m\<close> is appended to it and no \<^verbatim>\<open>closeSlow\<close>
  goroutine is started for \<open>s\<close>; if it holds 16, the queue is unchanged and exactly one
  \<^verbatim>\<open>closeSlow\<close> goroutine for \<open>s\<close> is started. The goroutine is only started: the loop
  itself makes no call on a connection and sets no closed flag. The loop is a recursion
  over the finite list of registered subscribers in which every round is one of these
  two outcomes: there is no round that waits for a queue.
\<close>

theorem publish_delivers_or_evicts:
  "st = run evs newGameServer \<Longrightarrow> s \<in> set (subscribers st) \<Longrightarrow>
   mset order = mset (subscribers st) \<Longrightarrow>
     publish_range m order st = publish m st
     \<and> (if length (msgs (sessions st ! s)) < 16
        then msgs (sessions (publish m st) ! s) = msgs (sessions st ! s) @ [m]
             \<and> count (spawned (publish m st)) s = count (spawned st) s
        else msgs (sessions (publish m st) ! s) = msgs (sessions st ! s)
             \<and> count (spawned (publish m st)) s = Suc (count (spawned st) s))
     \<and> conn_calls (publish m st) = conn_calls st
     \<and> closed (sessions (publish m st) ! s) = closed (sessions st ! s)
     \<and> subscribers (publish m st) = subscribers st"
proof -
  assume st: "st = run evs newGameServer"
    and reg: "s \<in> set (subscribers st)" and ord: "mset order = mset (subscribers st)"
  have inv: "invar st" unfolding st by (rule invar_reachable)
  from inv reg have len: "s < length (sessions st)" and dist: "distinct (subscribers st)"
    by (auto simp: invar_def)
  from inv len have cap: "msgs_cap (sessions st ! s) = 16"
    by (simp add: invar_def session_ok_def)
  have "publish_range m order st = publish m st"
    unfolding publish_def by (rule publish_range_any_order[OF ord])
  moreover note publish_range_self[OF dist reg len, of m, unfolded cap, folded publish_def]
  moreover have "conn_calls (publish m st) = conn_calls st"
    "closed (sessions (publish m st) ! s) = closed (sessions st ! s)"
    "subscribers (publish m st) = subscribers st"
    by (simp_all add: publish_def publish_range_frame publish_range_session)
  ultimately show ?thesis by simp
qed

theorem publish_delivers_or_evicts_witness:
  "busy_state = run busy_run newGameServer
   \<and> 1 \<in> set (subscribers busy_state)
   \<and> mset [1, 0] = mset (subscribers busy_state)
   \<and> publish_range [111, 107] [1, 0] busy_state = publish [111, 107] busy_state
   \<and> msgs (sessions (publish [111, 107] busy_state) ! 1) = replicate 16 [104, 105]
   \<and> count (spawned (publish [111, 107] busy_state)) 1 = 1
   \<and> msgs (sessions (publish [111, 107] busy_state) ! 0)
       = replicate 15 [104, 105] @ [[111, 107]]
   \<and> count (spawned (publish [111, 107] busy_state)) 0 = 0"
  using publish_delivers_or_evicts[of busy_state busy_run 1 "[1, 0]" "[111, 107]"]
        publish_delivers_or_evicts[of busy_state busy_run 0 "[1, 0]" "[111, 107]"]
  by (simp add: busy_run_state) (simp add: busy_state_def publish_def publish_step_def try_send_def)

text \<open>
  Claim C2, as amended. In every state the server can reach, a subscriber is in the
  registry if and only if its call of \<^verbatim>\<open>subscribe\<close> has started and has not returned:
  the session is waiting for the handshake (\<open>Accepting\<close>) or is active. Registration
  comes before the handshake; a session that has returned is not registered.
\<close>

theorem registry_is_unreturned_sessions:
  "s \<in> set (subscribers (run evs newGameServer)) \<longleftrightarrow>
     s < length (sessions (run evs newGameServer)) \<and>
     (phase (sessions (run evs newGameServer) ! s) = Accepting \<or>
      phase (sessions (run evs newGameServer) ! s) = Active)"
  using invar_reachable[of evs]
  by (auto simp: invar_def session_ok_def)

theorem registry_is_unreturned_sessions_witness:
  "0 \<in> set (subscribers (run busy_run newGameServer))
   \<and> phase (sessions (run busy_run newGameServer) ! 0) = Active
   \<and> 1 \<in> set (subscribers (run busy_run newGameServer))
   \<and> phase (sessions (run busy_run newGameServer) ! 1) = Accepting
   \<and> 1 \<notin> set (subscribers (run (busy_run @ [AcceptReturns 1 (Inl (TransportError ''bad handshake''))]) newGameServer))"
  using registry_is_unreturned_sessions[of 0 busy_run]
        registry_is_unreturned_sessions[of 1 busy_run]
        registry_is_unreturned_sessions[of 1 "busy_run @ [AcceptReturns 1 (Inl (TransportError ''bad handshake''))]"]
  by (simp add: run_append busy_run_state busy_state_def ev_defs)

text \<open>
  Claim C2 as written fails: right after \<^verbatim>\<open>subscribe\<close> has registered the subscriber
  and before \<^verbatim>\<open>websocket.Accept\<close> has returned, the subscriber is in the registry while
  its session is not active and has no connection.
\<close>

theorem registered_before_handshake:
  "0 \<in> set (subscribers (run [Subscribe ''10.0.0.1:5001''] newGameServer))
   \<and> phase (sessions (run [Subscribe ''10.0.0.1:5001''] newGameServer) ! 0) \<noteq> Active
   \<and> c (sessions (run [Subscribe ''10.0.0.1:5001''] newGameServer) ! 0) = None"
  by (simp add: newGameServer_def ev_defs)

text \<open>
  Claim C3. For a request to \<^verbatim>\<open>/publish\<close> with method \<open>m\<close>, sender \<open>a\<close> and a body \<open>bs\<close>
  that arrives whole: if \<open>m\<close> is not \<^verbatim>\<open>POST\<close> the status is 405 and the server is as
  before; otherwise, if \<open>bs\<close> is longer than 8192 bytes, the status is 413 and the server
  is as before (nothing was handed to the game, nothing was published); otherwise the
  status is 202 and the server is the one obtained by handing \<open>bs\<close> to the game and
  then publishing it: the game has printed \<open>(a, bs)\<close> last, and every registered
  subscriber with room in its queue has \<open>bs\<close> at the end of it.
\<close>

theorem publishHandler_statuses:
  "publishHandler \<lparr>Method = m, RemoteAddr = a, Body = Complete bs\<rparr> st =
     (if m \<noteq> ''POST'' then (405, st)
      else if 8192 < length bs then (413, st)
      else (202, publish bs (HandleMsg a bs st)))
   \<and> game_log (publish bs (HandleMsg a bs st)) = game_log st @ [(a, bs)]
   \<and> (distinct (subscribers st) \<and> s \<in> set (subscribers st) \<and> s < length (sessions st) \<and>
        length (msgs (sessions st ! s)) < msgs_cap (sessions st ! s) \<longrightarrow>
        msgs (sessions (publish bs (HandleMsg a bs st)) ! s) = msgs (sessions st ! s) @ [bs])"
proof (intro conjI impI)
  show "publishHandler \<lparr>Method = m, RemoteAddr = a, Body = Complete bs\<rparr> st =
     (if m \<noteq> ''POST'' then (405, st)
      else if 8192 < length bs then (413, st)
      else (202, publish bs (HandleMsg a bs st)))"
    by (simp add: publishHandler_def StatusAccepted_def StatusMethodNotAllowed_def
          StatusRequestEntityTooLarge_def)
  show "game_log (publish bs (HandleMsg a bs st)) = game_log st @ [(a, bs)]"
    by (simp add: publish_def publish_range_frame HandleMsg_def)
  assume h: "distinct (subscribers st) \<and> s \<in> set (subscribers st) \<and> s < length (sessions st) \<and>
        length (msgs (sessions st ! s)) < msgs_cap (sessions st ! s)"
  let ?st = "HandleMsg a bs st"
  have eq: "subscribers ?st = subscribers st" "sessions ?st = sessions st"
    by (simp_all add: HandleMsg_def)
  from h have "distinct (subscribers ?st)" "s \<in> set (subscribers ?st)" "s < length (sessions ?st)"
    by (simp_all add: eq)
  from publish_range_self[OF this, of bs] h
  show "msgs (sessions (publish bs ?st) ! s) = msgs (sessions st ! s) @ [bs]"
    by (simp add: publish_def eq)
qed

theorem publishHandler_statuses_witness:
  "fst (publishHandler \<lparr>Method = ''POST'', RemoteAddr = ''10.0.0.9:6000'',
          Body = Complete (replicate 9000 65)\<rparr> busy_state) = 413
   \<and> snd (publishHandler \<lparr>Method = ''POST'', RemoteAddr = ''10.0.0.9:6000'',
          Body = Complete (replicate 9000 65)\<rparr> busy_state) = busy_state
   \<and> fst (publishHandler \<lparr>Method = ''POST'', RemoteAddr = ''10.0.0.9:6000'',
          Body = Complete (replicate 100 65)\<rparr> busy_state) = 202
   \<and> fst (publishHandler \<lparr>Method = ''GET'', RemoteAddr = ''10.0.0.9:6000'',
          Body = Complete (replicate 100 65)\<rparr> busy_state) = 405
   \<and> msgs (sessions (publish (replicate 100 65) (HandleMsg ''10.0.0.9:6000'' (replicate 100 65) busy_state)) ! 0)
       = replicate 15 [104, 105] @ [replicate 100 65]"
  using publishHandler_statuses[of "''POST''" "''10.0.0.9:6000''" "replicate 9000 65" busy_state 0]
        publishHandler_statuses[of "''POST''" "''10.0.0.9:6000''" "replicate 100 65" busy_state 0]
        publishHandler_statuses[of "''GET''" "''10.0.0.9:6000''" "replicate 100 65" busy_state 0]
  by (simp add: busy_state_def HandleMsg_def)




text \<open>
  Claim C5. The code departs from the claim at two inputs of the read loop of an
  active session. First, \<^verbatim>\<open>c.Reader\<close> fails with a going-away closure: \<^verbatim>\<open>listen\<close> tests
  for the normal-closure code only and returns the error, where the claim has the loop
  end without error (and where \<^verbatim>\<open>subscribeHandler\<close> keeps silent on both codes). Second,
  \<^verbatim>\<open>c.Reader\<close> fails with a transport error: the read loop stops with that error, but
  the result of a goroutine is dropped, so the session is still active and registered
  afterwards, where the claim has the error end the session.
\<close>

theorem going_away_is_an_error:
  "fst (listen ''10.0.0.1:5001'' [ReaderFails (CloseError StatusGoingAway ''leaving'')] newGameServer)
     = ListenReturned (Some (CloseError StatusGoingAway ''leaving''))
   \<and> fst (listen ''10.0.0.1:5001'' [ReaderFails (CloseError StatusNormalClosure ''leaving'')] newGameServer)
     = ListenReturned None
   \<and> subscribeHandler (Some (CloseError StatusGoingAway ''leaving'')) = []
   \<and> listener (sessions (run [Subscribe ''10.0.0.1:5001'', AcceptReturns 0 (Inr 7),
                              Read 0 (ReaderFails (TransportError ''connection reset''))]
                           newGameServer) ! 0)
     = Stopped (Some (TransportError ''connection reset''))
   \<and> phase (sessions (run [Subscribe ''10.0.0.1:5001'', AcceptReturns 0 (Inr 7),
                           Read 0 (ReaderFails (TransportError ''connection reset''))]
                        newGameServer) ! 0)
     = Active
   \<and> 0 \<in> set (subscribers (run [Subscribe ''10.0.0.1:5001'', AcceptReturns 0 (Inr 7),
                                Read 0 (ReaderFails (TransportError ''connection reset''))]
                             newGameServer))"
  by (simp add: newGameServer_def ev_defs subscribeHandler_def)

text \<open>
  Claim C6. When \<^verbatim>\<open>closeSlow\<close> runs for a session whose connection \<open>k\<close> is established,
  it marks the session closed and calls \<^verbatim>\<open>Close\<close> on \<open>k\<close> with the policy-violation
  status; in the server, a \<^verbatim>\<open>closeSlow\<close> goroutine started by \<^verbatim>\<open>publish\<close> for such a
  session adds exactly this call and no panic. The publishing caller is told nothing
  about it: the status \<^verbatim>\<open>publishHandler\<close> answers with is the same whatever the state of
  the server, so it is the same whether or not a subscriber is evicted.
\<close>

theorem closeSlow_policy_violation:
  "(c ses = Some k \<longrightarrow>
      closeSlow ses calls =
        Inr (ses\<lparr>closed := True\<rparr>,
             calls @ [(k, Close StatusPolicyViolation ''connection too slow to keep up with messages'')]))
   \<and> (s \<in># spawned st \<and> s < length (sessions st) \<and> c (sessions st ! s) = Some k \<longrightarrow>
        conn_calls (run_closeSlow s st) =
          conn_calls st @ [(k, Close StatusPolicyViolation ''connection too slow to keep up with messages'')]
        \<and> closed (sessions (run_closeSlow s st) ! s)
        \<and> crashed (run_closeSlow s st) = crashed st)
   \<and> fst (publishHandler r st) = fst (publishHandler r st')"
  by (simp add: closeSlow_def Conn_Close_def run_closeSlow_def publishHandler_def Let_def
        split: sum.splits)

theorem closeSlow_policy_violation_witness:
  "0 \<in># spawned (run (busy_run @ [post, post]) newGameServer)
   \<and> 0 < length (sessions (run (busy_run @ [post, post]) newGameServer))
   \<and> c (sessions (run (busy_run @ [post, post]) newGameServer) ! 0) = Some 7
   \<and> conn_calls (run_closeSlow 0 (run (busy_run @ [post, post]) newGameServer))
       = conn_calls (run (busy_run @ [post, post]) newGameServer)
         @ [(7, Close 1008 ''connection too slow to keep up with messages'')]
   \<and> fst (publishHandler \<lparr>Method = ''POST'', RemoteAddr = ''10.0.0.9:6000'', Body = Complete [104, 105]\<rparr>
            (run (busy_run @ [post]) newGameServer)) = 202"
  using closeSlow_policy_violation[where s = 0 and k = 7
          and st = "run (busy_run @ [post, post]) newGameServer"
          and ses = "sessions (run (busy_run @ [post, post]) newGameServer) ! 0"
          and calls = "[]"
          and r = "\<lparr>Method = ''POST'', RemoteAddr = ''10.0.0.9:6000'', Body = Complete [104, 105]\<rparr>"
          and st' = "run (busy_run @ [post]) newGameServer"]
  by (simp add: run_append busy_run_state busy_state_def ev_defs)

text \<open>
  Claim C7. Take a reachable state in which a session is still inside
  \<^verbatim>\<open>websocket.Accept\<close> and \<^verbatim>\<open>closeSlow\<close> has already marked it closed. When the
  handshake then succeeds with a connection \<open>k\<close>, \<^verbatim>\<open>subscribe\<close> returns \<^verbatim>\<open>net.ErrClosed\<close>,
  the connection is never stored, and the subscriber is out of the registry. At no
  point of the run, before or after, is the session active: up to the handshake it is
  accepting, afterwards it has returned and stays unregistered.
\<close>

theorem closed_before_accept:
  "s < length (sessions (run evs newGameServer)) \<Longrightarrow>
   phase (sessions (run evs newGameServer) ! s) = Accepting \<Longrightarrow>
   closed (sessions (run evs newGameServer) ! s) \<Longrightarrow>
     phase (sessions (step (AcceptReturns s (Inr k)) (run evs newGameServer)) ! s) = Returned ErrClosed
     \<and> c (sessions (step (AcceptReturns s (Inr k)) (run evs newGameServer)) ! s) = None
     \<and> s \<notin> set (subscribers (step (AcceptReturns s (Inr k)) (run evs newGameServer)))
     \<and> (\<forall>n. s < length (sessions (run (take n (evs @ AcceptReturns s (Inr k) # evs')) newGameServer)) \<longrightarrow>
            phase (sessions (run (take n (evs @ AcceptReturns s (Inr k) # evs')) newGameServer) ! s) \<noteq> Active)
     \<and> phase (sessions (run (evs @ AcceptReturns s (Inr k) # evs') newGameServer) ! s) = Returned ErrClosed
     \<and> s \<notin> set (subscribers (run (evs @ AcceptReturns s (Inr k) # evs') newGameServer))"
proof -
  let ?st = "run evs newGameServer"
  let ?st' = "step (AcceptReturns s (Inr k)) ?st"
  let ?all = "evs @ AcceptReturns s (Inr k) # evs'"
  assume len: "s < length (sessions ?st)" and acc: "phase (sessions ?st ! s) = Accepting"
    and cl: "closed (sessions ?st ! s)"
  note a = accept_when_closed[OF invar_reachable len acc cl, of k]
  have after: "phase (sessions (run es ?st') ! s) = Returned ErrClosed
               \<and> s \<notin> set (subscribers (run es ?st'))" for es
    by (rule returned_stays[OF a(4) a(1) a(2)])
  have never: "phase (sessions (run (take n ?all) newGameServer) ! s) \<noteq> Active"
    if n: "s < length (sessions (run (take n ?all) newGameServer))" for n
  proof (cases "n \<le> length evs")
    case True
    then have t: "take n ?all = take n evs" by simp
    from n have "s < length (sessions (run (take n evs) newGameServer))"
      by (simp only: t)
    from never_active_before[OF acc this] show ?thesis by (simp only: t) simp
  next
    case False
    then have "take n ?all = evs @ AcceptReturns s (Inr k) # take (n - Suc (length evs)) evs'"
      by (simp add: take_Cons' not_le)
    then have "run (take n ?all) newGameServer = run (take (n - Suc (length evs)) evs') ?st'"
      by (simp add: run_append)
    with after show ?thesis by simp
  qed
  have "run ?all newGameServer = run evs' ?st'" by (simp add: run_append)
  with a after never show ?thesis by simp
qed

theorem closed_before_accept_witness:
  "1 < length (sessions (run (busy_run @ [post, RunCloseSlow 1]) newGameServer))
   \<and> phase (sessions (run (busy_run @ [post, RunCloseSlow 1]) newGameServer) ! 1) = Accepting
   \<and> closed (sessions (run (busy_run @ [post, RunCloseSlow 1]) newGameServer) ! 1)
   \<and> phase (sessions (step (AcceptReturns 1 (Inr 9))
               (run (busy_run @ [post, RunCloseSlow 1]) newGameServer)) ! 1) = Returned ErrClosed
   \<and> subscribers (step (AcceptReturns 1 (Inr 9))
               (run (busy_run @ [post, RunCloseSlow 1]) newGameServer)) = [0]
   \<and> conn_calls (step (AcceptReturns 1 (Inr 9))
               (run (busy_run @ [post, RunCloseSlow 1]) newGameServer))
       = conn_calls busy_state"
  using closed_before_accept[of 1 "busy_run @ [post, RunCloseSlow 1]" 9 "[]"]
  by (simp add: run_append busy_run_state busy_state_def ev_defs)

text \<open>
  Claim C8. \<^verbatim>\<open>deleteSubscriber\<close> takes the subscriber out of the registry and touches
  nothing else; a second call in a row changes nothing, and so does a call for a
  subscriber that is not registered.
\<close>

theorem deleteSubscriber_idempotent:
  "deleteSubscriber s (deleteSubscriber s st) = deleteSubscriber s st
   \<and> (s \<notin> set (subscribers st) \<longrightarrow> deleteSubscriber s st = st)
   \<and> set (subscribers (deleteSubscriber s st)) = set (subscribers st) - {s}
   \<and> deleteSubscriber s st = st\<lparr>subscribers := subscribers (deleteSubscriber s st)\<rparr>"
  by (simp add: deleteSubscriber_def)

theorem deleteSubscriber_idempotent_witness:
  "5 \<notin> set (subscribers busy_state)
   \<and> deleteSubscriber 5 busy_state = busy_state
   \<and> subscribers (deleteSubscriber 0 busy_state) = [1]
   \<and> deleteSubscriber 0 (deleteSubscriber 0 busy_state) = deleteSubscriber 0 busy_state"
  using deleteSubscriber_idempotent[of 5 busy_state] deleteSubscriber_idempotent[of 0 busy_state]
  by (simp add: busy_state_def deleteSubscriber_def)

text \<open>
  Claim C9. In \<^verbatim>\<open>publishHandler\<close>, whenever reading the body of a \<^verbatim>\<open>POST\<close> request
  returns an error, the status is 413 and the server is as before: nothing is handed to
  the game and nothing is published. A body that breaks while it is read gives such an
  error whatever its length: the size limit's error when more than 8192 bytes had
  arrived, the transport's own error otherwise.
\<close>

theorem publishHandler_read_error:
  "(Method r = ''POST'' \<and> ReadAll (MaxBytesReader (Body r) 8192) = Inl err \<longrightarrow>
      publishHandler r st = (413, st))
   \<and> ReadAll (MaxBytesReader (Broken bs e) 8192)
       = Inl (if 8192 < length bs then MaxBytesError else e)"
  by (simp add: publishHandler_def StatusRequestEntityTooLarge_def)

theorem publishHandler_read_error_witness:
  "Method \<lparr>Method = ''POST'', RemoteAddr = ''10.0.0.9:6000'',
            Body = Broken [104, 105] (TransportError ''unexpected EOF'')\<rparr> = ''POST''
   \<and> ReadAll (MaxBytesReader (Body \<lparr>Method = ''POST'', RemoteAddr = ''10.0.0.9:6000'',
            Body = Broken [104, 105] (TransportError ''unexpected EOF'')\<rparr>) 8192)
       = Inl (TransportError ''unexpected EOF'')
   \<and> publishHandler \<lparr>Method = ''POST'', RemoteAddr = ''10.0.0.9:6000'',
            Body = Broken [104, 105] (TransportError ''unexpected EOF'')\<rparr> busy_state
       = (413, busy_state)"
  using publishHandler_read_error[of "\<lparr>Method = ''POST'', RemoteAddr = ''10.0.0.9:6000'',
            Body = Broken [104, 105] (TransportError ''unexpected EOF'')\<rparr>"
          "TransportError ''unexpected EOF''" busy_state "[104, 105]" "TransportError ''unexpected EOF''"]
  by simp

text \<open>
  Claim C10. \<^verbatim>\<open>closeSlow\<close> never panics. While \<^verbatim>\<open>c\<close> is \<^verbatim>\<open>nil\<close> it sets the closed flag
  and does nothing else: no call is made on any connection. No step of the server
  clears a closed flag: a session that is marked closed in some state is marked
  closed in every later state, and no reachable state has a panic.
\<close>

theorem closeSlow_safe:
  "(\<forall>p. closeSlow ses calls \<noteq> Inl p)
   \<and> (c ses = None \<longrightarrow> closeSlow ses calls = Inr (ses\<lparr>closed := True\<rparr>, calls))
   \<and> (s < length (sessions st) \<and> closed (sessions st ! s) \<longrightarrow>
        closed (sessions (run evs st) ! s))
   \<and> crashed (run evs' newGameServer) = None"
proof (intro conjI impI allI)
  show "closeSlow ses calls \<noteq> Inl p" for p
    by (simp add: closeSlow_def Conn_Close_def Let_def split: option.splits)
  show "closeSlow ses calls = Inr (ses\<lparr>closed := True\<rparr>, calls)" if "c ses = None"
    using that by (simp add: closeSlow_def Let_def)
  show "closed (sessions (run evs st) ! s)"
    if "s < length (sessions st) \<and> closed (sessions st ! s)"
    using later_run[of st evs] that by (simp add: later_def evolves_def)
  show "crashed (run evs' newGameServer) = None"
    using invar_reachable[of evs'] by (simp add: invar_def)
qed

theorem closeSlow_safe_witness:
  "c (sessions (run (busy_run @ [post]) newGameServer) ! 1) = None
   \<and> closeSlow (sessions (run (busy_run @ [post]) newGameServer) ! 1) []
       = Inr ((sessions (run (busy_run @ [post]) newGameServer) ! 1)\<lparr>closed := True\<rparr>, [])
   \<and> 1 < length (sessions (run (busy_run @ [post, RunCloseSlow 1]) newGameServer))
   \<and> closed (sessions (run (busy_run @ [post, RunCloseSlow 1]) newGameServer) ! 1)
   \<and> conn_calls (run (busy_run @ [post, RunCloseSlow 1]) newGameServer)
       = conn_calls (run (busy_run @ [post]) newGameServer)
   \<and> closed (sessions (run [AcceptReturns 1 (Inr 9), post]
               (run (busy_run @ [post, RunCloseSlow 1]) newGameServer)) ! 1)"
  using closeSlow_safe[where ses = "sessions (run (busy_run @ [post]) newGameServer) ! 1"
          and calls = "[]" and s = 1
          and st = "run (busy_run @ [post, RunCloseSlow 1]) newGameServer"
          and evs = "[AcceptReturns 1 (Inr 9), post]" and evs' = "[]"]
  by (simp add: run_append busy_run_state busy_state_def ev_defs)

end
